theory Spec2Isabelle
  imports Complex_Main "HOL-Library.Sublist" "HOL-Library.AList"
begin

section \<open>Python strings (ASCII)\<close>

text \<open>
  A Python \<open>str\<close> is modelled as a \<open>string\<close> (a list of \<open>char\<close>). The model covers ASCII
  text: \<open>str.lower\<close>, \<open>str.upper\<close> and \<open>str.strip\<close> are Python's on code points below 128,
  and the theorems about text assume \<open>ascii_text\<close>. Floats are modelled as \<open>real\<close>; the
  bridge only compares, negates and adds them.
\<close>

definition ascii_text :: "string \<Rightarrow> bool" where
  "ascii_text s = list_all (\<lambda>c. \<not> digit7 c) s"

definition ascii_uppercase :: string where
  "ascii_uppercase = ''ABCDEFGHIJKLMNOPQRSTUVWXYZ''"

definition ascii_lowercase :: string where
  "ascii_lowercase = ''abcdefghijklmnopqrstuvwxyz''"

definition lower_char :: "char \<Rightarrow> char" where
  "lower_char c =
     (case map_of (zip ascii_uppercase ascii_lowercase) c of Some l \<Rightarrow> l | None \<Rightarrow> c)"

definition upper_char :: "char \<Rightarrow> char" where
  "upper_char c =
     (case map_of (zip ascii_lowercase ascii_uppercase) c of Some u \<Rightarrow> u | None \<Rightarrow> c)"

definition py_lower :: "string \<Rightarrow> string" where
  "py_lower s = map lower_char s"

definition py_upper :: "string \<Rightarrow> string" where
  "py_upper s = map upper_char s"

text \<open>The ASCII characters for which \<open>str.isspace\<close> holds: TAB, LF, VT, FF, CR, the
  separators 0x1C to 0x1F, and the space.\<close>

definition py_isspace :: "char \<Rightarrow> bool" where
  "py_isspace c =
     (c \<in> set [CHR 0x09, CHR 0x0A, CHR 0x0B, CHR 0x0C, CHR 0x0D,
                CHR 0x1C, CHR 0x1D, CHR 0x1E, CHR 0x1F, CHR 0x20])"

definition py_strip :: "string \<Rightarrow> string" where
  "py_strip s = rev (dropWhile py_isspace (rev (dropWhile py_isspace s)))"

text \<open>\<open>needle in haystack\<close> on strings: the needle occurs as a contiguous run.\<close>

fun py_in :: "string \<Rightarrow> string \<Rightarrow> bool" where
  "py_in needle [] = (needle = [])"
| "py_in needle (c # cs) = (prefix needle (c # cs) \<or> py_in needle cs)"

text \<open>\<open>s.split('\n')[0]\<close>: the text before the first line feed (all of it when there is
  none; \<open>split\<close> never returns an empty list).\<close>

definition first_line :: "string \<Rightarrow> string" where
  "first_line s = takeWhile (\<lambda>c. c \<noteq> CHR 0x0A) s"

section \<open>The command bridge (src/bridge.py)\<close>

type_synonym vec3 = "real \<times> real \<times> real"

text \<open>
  The fields of \<open>SimBridge\<close> without the lock: every method holds the lock around its whole
  access, so a method is one atomic step of the model. \<open>time.time()\<close> is the argument
  \<open>now\<close>. The last state is a reference to a dict in the store below.
\<close>

type_synonym addr = nat

record SimBridge =
  last_state :: addr
  camera_rgba :: "addr option"
  base_command :: vec3
  command_until_walltime :: real

definition set_base_command ::
  "real \<Rightarrow> real \<Rightarrow> real \<Rightarrow> real \<Rightarrow> real \<Rightarrow> SimBridge \<Rightarrow> SimBridge" where
  "set_base_command now vx vy yaw_rate duration_s b =
     (let duration_s' = max 0 duration_s;
          until = now + duration_s'
      in b\<lparr>base_command := (vx, vy, yaw_rate), command_until_walltime := until\<rparr>)"

definition get_base_command :: "real \<Rightarrow> SimBridge \<Rightarrow> vec3" where
  "get_base_command now b =
     (if now > command_until_walltime b then (0, 0, 0) else base_command b)"

definition set_camera_rgba :: "addr option \<Rightarrow> SimBridge \<Rightarrow> SimBridge" where
  "set_camera_rgba rgba b = b\<lparr>camera_rgba := rgba\<rparr>"

definition get_camera_rgba :: "SimBridge \<Rightarrow> addr option" where
  "get_camera_rgba b = camera_rgba b"

section \<open>The direction translator (src/bridge.py)\<close>

datatype error = ValueError | TypeError

definition direction_to_command :: "string \<Rightarrow> real \<Rightarrow> real \<Rightarrow> error + vec3" where
  "direction_to_command direction speed yaw_rate =
     (let d = py_lower (py_strip direction) in
      if d \<in> {''forward'', ''fwd'', ''front''} then Inr (speed, 0, 0)
      else if d \<in> {''back'', ''backward'', ''reverse''} then Inr (- speed, 0, 0)
      else if d \<in> {''left'', ''strafe_left''} then Inr (0, speed, 0)
      else if d \<in> {''right'', ''strafe_right''} then Inr (0, - speed, 0)
      else if d \<in> {''turn_left'', ''yaw_left'', ''rotate_left''} then Inr (0, 0, yaw_rate)
      else if d \<in> {''turn_right'', ''yaw_right'', ''rotate_right''} then Inr (0, 0, - yaw_rate)
      else if d \<in> {''stop'', ''halt''} then Inr (0, 0, 0)
      else Inl ValueError)"

text \<open>The tokens of the synonym table, all of them.\<close>

definition direction_tokens :: "string set" where
  "direction_tokens =
     {''forward'', ''fwd'', ''front'', ''back'', ''backward'', ''reverse'',
      ''left'', ''strafe_left'', ''right'', ''strafe_right'',
      ''turn_left'', ''yaw_left'', ''rotate_left'',
      ''turn_right'', ''yaw_right'', ''rotate_right'', ''stop'', ''halt''}"

section \<open>The command producer API (src/mcp_server.py)\<close>

record move_applied =
  applied_vx :: real
  applied_vy :: real
  applied_yaw_rate :: real
  applied_duration_s :: real

record move_response =
  ok :: bool
  applied :: move_applied

definition giveMoveCommand ::
  "real \<Rightarrow> string \<Rightarrow> real \<Rightarrow> real \<Rightarrow> real \<Rightarrow> SimBridge \<Rightarrow> error + (move_response \<times> SimBridge)" where
  "giveMoveCommand now direction length_s speed yaw_rate bridge =
     (case direction_to_command direction speed yaw_rate of
        Inl e \<Rightarrow> Inl e
      | Inr (vx, vy, wz) \<Rightarrow>
          Inr (\<lparr>ok = True,
                applied = \<lparr>applied_vx = vx, applied_vy = vy, applied_yaw_rate = wz,
                           applied_duration_s = length_s\<rparr>\<rparr>,
               set_base_command now vx vy wz length_s bridge))"

definition setBaseCommand :: "real \<Rightarrow> real \<Rightarrow> real \<Rightarrow> real \<Rightarrow> real \<Rightarrow> SimBridge \<Rightarrow> SimBridge" where
  "setBaseCommand now vx vy yaw_rate duration b = set_base_command now vx vy yaw_rate duration b"

definition stop :: "real \<Rightarrow> SimBridge \<Rightarrow> SimBridge" where
  "stop now b = set_base_command now 0 0 0 0 b"

section \<open>Published state snapshots (src/bridge.py)\<close>

text \<open>
  The state that the simulation publishes is a dict of dicts and lists
  (\<open>{"timestamp": .., "spot": {..}, "base_command": {..}, "camera": {..}}\<close>). Python dicts
  and lists are mutable objects reached through references, and what \<open>dict(state)\<close> copies
  depends on that, so the objects live in an explicit store: a value is a scalar or a
  reference, an object is a dict (insertion-ordered) or a list of values.
\<close>

datatype pyval = PyNone | PyBool bool | PyFloat real | PyStr string | PyRef addr

datatype pyobj = PyDict "(string \<times> pyval) list" | PyList "pyval list"

record store =
  objs :: "addr \<Rightarrow> pyobj option"
  next_addr :: addr

text \<open>A new object gets an identity no older reference has.\<close>

definition alloc :: "pyobj \<Rightarrow> store \<Rightarrow> addr \<times> store" where
  "alloc obj h =
     (next_addr h, h\<lparr>objs := (objs h)(next_addr h \<mapsto> obj), next_addr := Suc (next_addr h)\<rparr>)"

text \<open>\<open>dict(d)\<close> for a dict \<open>d\<close>: a new dict object with the entries of \<open>d\<close>, the values
  themselves (references stay references to the same objects). The argument is declared
  \<open>Dict[str, Any]\<close>; anything else is an error of the model.\<close>

definition py_dict :: "addr \<Rightarrow> store \<Rightarrow> error + (addr \<times> store)" where
  "py_dict a h =
     (case objs h a of
        Some (PyDict kvs) \<Rightarrow> Inr (alloc (PyDict kvs) h)
      | _ \<Rightarrow> Inl TypeError)"

text \<open>\<open>SimBridge()\<close>: the default factory makes an empty dict for the last state.\<close>

definition SimBridge_init :: "store \<Rightarrow> SimBridge \<times> store" where
  "SimBridge_init h =
     (let (a, h') = alloc (PyDict []) h
      in (\<lparr>last_state = a, camera_rgba = None, base_command = (0, 0, 0),
            command_until_walltime = 0\<rparr>, h'))"

definition update_state :: "addr \<Rightarrow> SimBridge \<Rightarrow> store \<Rightarrow> error + (SimBridge \<times> store)" where
  "update_state state b h =
     (case py_dict state h of
        Inl e \<Rightarrow> Inl e
      | Inr (a, h') \<Rightarrow> Inr (b\<lparr>last_state := a\<rparr>, h'))"

definition get_state :: "SimBridge \<Rightarrow> store \<Rightarrow> error + (addr \<times> store)" where
  "get_state b h = py_dict (last_state b) h"

text \<open>What a holder of a reference can do to the object behind it: replace its content
  in place (\<open>store_write\<close>, any mutation), in particular \<open>d[k] = v\<close>; and read \<open>d[k]\<close>.\<close>

definition store_write :: "addr \<Rightarrow> pyobj \<Rightarrow> store \<Rightarrow> store" where
  "store_write a obj h = h\<lparr>objs := (objs h)(a \<mapsto> obj)\<rparr>"

datatype lookup_error = KeyError | NotADict

definition dict_getitem :: "addr \<Rightarrow> string \<Rightarrow> store \<Rightarrow> lookup_error + pyval" where
  "dict_getitem a k h =
     (case objs h a of
        Some (PyDict kvs) \<Rightarrow> (case map_of kvs k of Some v \<Rightarrow> Inr v | None \<Rightarrow> Inl KeyError)
      | _ \<Rightarrow> Inl NotADict)"

definition dict_setitem :: "addr \<Rightarrow> string \<Rightarrow> pyval \<Rightarrow> store \<Rightarrow> lookup_error + store" where
  "dict_setitem a k v h =
     (case objs h a of
        Some (PyDict kvs) \<Rightarrow> Inr (store_write a (PyDict (AList.update k v kvs)) h)
      | _ \<Rightarrow> Inl NotADict)"

text \<open>\<open>v[k1][k2]...\<close>: what a reader of the snapshot sees along a path of keys.\<close>

fun lookup_path :: "store \<Rightarrow> pyval \<Rightarrow> string list \<Rightarrow> pyval option" where
  "lookup_path h v [] = Some v"
| "lookup_path h v (k # ks) =
     (case v of
        PyRef a \<Rightarrow>
          (case dict_getitem a k h of Inr v' \<Rightarrow> lookup_path h v' ks | Inl _ \<Rightarrow> None)
      | _ \<Rightarrow> None)"

text \<open>What is read along a path of keys from the snapshot that the bridge holds.\<close>

definition stored_lookup :: "SimBridge \<Rightarrow> string list \<Rightarrow> store \<Rightarrow> pyval option" where
  "stored_lookup b path h = lookup_path h (PyRef (last_state b)) path"

text \<open>A reader's code: \<open>snap = bridge.get_state(); snap[k] = v\<close>, and
  \<open>snap = bridge.get_state(); snap[k1][k2] = v\<close>.\<close>

definition reader_sets_top :: "SimBridge \<Rightarrow> string \<Rightarrow> pyval \<Rightarrow> store \<Rightarrow> store option" where
  "reader_sets_top b k v h =
     (case get_state b h of
        Inl _ \<Rightarrow> None
      | Inr (snap, h1) \<Rightarrow> (case dict_setitem snap k v h1 of Inr h2 \<Rightarrow> Some h2 | Inl _ \<Rightarrow> None))"

definition reader_sets_nested ::
  "SimBridge \<Rightarrow> string \<Rightarrow> string \<Rightarrow> pyval \<Rightarrow> store \<Rightarrow> store option" where
  "reader_sets_nested b k1 k2 v h =
     (case get_state b h of
        Inl _ \<Rightarrow> None
      | Inr (snap, h1) \<Rightarrow>
          (case dict_getitem snap k1 h1 of
             Inr (PyRef p) \<Rightarrow> (case dict_setitem p k2 v h1 of Inr h2 \<Rightarrow> Some h2 | Inl _ \<Rightarrow> None)
           | _ \<Rightarrow> None))"

text \<open>A run of the publisher: a new bridge, then
  \<open>bridge.update_state({"timestamp": 1.0, "spot": {"orientation_yaw_rad": 0.0}})\<close>. The
  bridge's first dict is object 0, the pose 1, the publisher's dict 2 and the stored
  copy 3.\<close>

definition empty_store :: store where
  "empty_store = \<lparr>objs = Map.empty, next_addr = 0\<rparr>"

definition published_example :: "SimBridge \<times> store" where
  "published_example =
     (let (b, h0) = SimBridge_init empty_store;
          (pose, h1) = alloc (PyDict [(''orientation_yaw_rad'', PyFloat 0)]) h0;
          (state, h2) = alloc (PyDict [(''timestamp'', PyFloat 1), (''spot'', PyRef pose)]) h1
      in case update_state state b h2 of Inr published \<Rightarrow> published | Inl _ \<Rightarrow> (b, h2))"

text \<open>A bridge for the examples of the command window.\<close>

definition example_bridge :: SimBridge where
  "example_bridge =
     \<lparr>last_state = 0, camera_rgba = None, base_command = (0, 0, 0),
      command_until_walltime = 0\<rparr>"

section \<open>The navigation decision loop (agent.py)\<close>

text \<open>
  \<open>navigate_robot\<close> once the MCP session is connected. The tools are external: what each
  call of one iteration gives back is an \<open>observation\<close>, and the environment gives the
  observation of every iteration, by the step number the iteration prints. The outcome
  of \<open>getState\<close> and of \<open>stop\<close> changes nothing but log lines, so no observation holds it.
  The run's effects are the trace of its tool calls, its sleeps and its final report.
\<close>

datatype camera_result = CameraException | CameraNoContent | CameraNotOk | CameraOk

datatype vision_result = VisionException | VisionNotOk | VisionOk string

text \<open>\<open>MoveOk d\<close>: the reply is ok and \<open>applied.get("duration_s", 0)\<close> is \<open>d\<close>.\<close>

datatype move_result = MoveException | MoveNotOk | MoveOk real

record observation =
  camera :: camera_result
  vision :: vision_result
  move :: move_result

type_synonym env = "nat \<Rightarrow> observation"

datatype event =
    CallGetCameraImage
  | CallGetState
  | CallQueryVisionModel
  | CallGiveMoveCommand string real real real
  | CallStop
  | Sleep nat
  | PrintNavigationComplete
  | PrintTotalSteps nat
  | PrintTotalDistance real

record nav_state =
  step :: nat
  distance_moved :: real
  consecutive_stops :: nat
  trace :: "event list"

definition emit :: "event list \<Rightarrow> nav_state \<Rightarrow> nav_state" where
  "emit es s = s\<lparr>trace := trace s @ es\<rparr>"

text \<open>Lines 110 to 176: the movement chosen from the vision text, with the new value of
  \<open>consecutive_stops\<close>. \<open>Move\<close> holds \<open>movement_command\<close>, \<open>speed\<close> and \<open>duration\<close>;
  \<open>GiveUp\<close> is the branch that stops the robot and breaks.\<close>

datatype decision = Move string real real | GiveUp

definition decide :: "string \<Rightarrow> nat \<Rightarrow> decision \<times> nat" where
  "decide vision_analysis consecutive =
     (let analysis_upper = py_upper vision_analysis;
          primary_command = first_line analysis_upper
      in if py_in ''FORWARD'' primary_command then (Move ''forward'' 1 2, 0)
         else if py_in ''SLOW'' primary_command then (Move ''forward'' 1 1, 0)
         else if py_in ''OBSTACLE_LEFT'' primary_command then (Move ''left'' 1 1, 0)
         else if py_in ''OBSTACLE_RIGHT'' primary_command then (Move ''right'' 1 1, 0)
         else if py_in ''BLOCKED'' primary_command then
           (let consecutive' = consecutive + 1
            in if consecutive' \<le> 2 then (Move ''turn_left'' 1 1, consecutive')
               else if consecutive' \<le> 4 then (Move ''turn_right'' 1 1, consecutive')
               else (GiveUp, consecutive'))
         else (Move ''forward'' 1 1, 0))"

text \<open>Lines 178 to 200: send the movement and account for the distance.\<close>

definition send_movement :: "move_result \<Rightarrow> string \<Rightarrow> real \<Rightarrow> real \<Rightarrow> nav_state \<Rightarrow> nav_state" where
  "send_movement reply movement_command speed duration s =
     (if movement_command \<noteq> [] then
        (let s1 = emit [CallGiveMoveCommand movement_command duration speed (4 / 5)] s;
             s2 = (case reply of
                     MoveOk duration_s \<Rightarrow>
                       if movement_command = ''forward''
                       then s1\<lparr>distance_moved := distance_moved s1 + duration_s * speed\<rparr>
                       else s1
                   | _ \<Rightarrow> s1)
         in emit [Sleep 1] s2)
      else s)"

datatype ctrl = Continue | Break

text \<open>One pass through the body of the \<open>while\<close>, from \<open>step += 1\<close> on.\<close>

definition loop_body :: "env \<Rightarrow> nav_state \<Rightarrow> ctrl \<times> nav_state" where
  "loop_body env s0 =
     (let s1 = s0\<lparr>step := step s0 + 1\<rparr>;
          obs = env (step s1);
          s2 = emit [CallGetCameraImage] s1
      in if camera obs \<noteq> CameraOk then (Continue, emit [Sleep 1] s2)
         else
           (let s3 = emit [CallGetState, CallQueryVisionModel] s2
            in case vision obs of
                 VisionOk vision_analysis \<Rightarrow>
                   if vision_analysis = [] then (Continue, emit [Sleep 1] s3)
                   else
                     (case decide vision_analysis (consecutive_stops s3) of
                        (GiveUp, n) \<Rightarrow>
                          (Break, emit [CallStop, Sleep 2] (s3\<lparr>consecutive_stops := n\<rparr>))
                      | (Move movement_command speed duration, n) \<Rightarrow>
                          (Continue,
                           send_movement (move obs) movement_command speed duration
                             (s3\<lparr>consecutive_stops := n\<rparr>)))
               | _ \<Rightarrow> (Continue, emit [Sleep 1] s3)))"

function navigate_loop :: "env \<Rightarrow> nat \<Rightarrow> nav_state \<Rightarrow> nav_state" where
  "navigate_loop env max_steps s =
     (if step s < max_steps then
        (case loop_body env s of
           (Continue, s') \<Rightarrow> navigate_loop env max_steps s'
         | (Break, s') \<Rightarrow> s')
      else s)"
  by pat_completeness auto
termination
proof (relation "measure (\<lambda>(env, max_steps, s). max_steps - step s)")
  show "wf (measure (\<lambda>(env, max_steps, s). max_steps - step s))"
    by simp
next
  fix env :: env and max_steps :: nat and s x1 x2
  assume lt: "step s < max_steps" and body: "(x1, x2) = loop_body env s"
  have "step (snd (loop_body env s)) = Suc (step s)"
    by (simp add: loop_body_def emit_def send_movement_def Let_def
        split: vision_result.split decision.split prod.split move_result.split)
  then have "step x2 = Suc (step s)"
    using body [symmetric] by simp
  with lt show "((env, max_steps, x2), (env, max_steps, s))
      \<in> measure (\<lambda>(env, max_steps, s). max_steps - step s)"
    by simp
qed

declare navigate_loop.simps [simp del]

definition initial_state :: nav_state where
  "initial_state = \<lparr>step = 0, distance_moved = 0, consecutive_stops = 0, trace = []\<rparr>"

definition navigate_robot :: "env \<Rightarrow> nav_state" where
  "navigate_robot env =
     (let max_steps = 100;
          s = navigate_loop env max_steps initial_state
      in emit [PrintNavigationComplete, PrintTotalSteps (step s),
               PrintTotalDistance (distance_moved s)] s)"

text \<open>The calls that command the robot, in the order issued.\<close>

fun is_command :: "event \<Rightarrow> bool" where
  "is_command (CallGiveMoveCommand _ _ _ _) = True"
| "is_command CallStop = True"
| "is_command _ = False"

definition commands :: "nav_state \<Rightarrow> event list" where
  "commands s = filter is_command (trace s)"

text \<open>The condition under which the \<open>BLOCKED\<close> branch (lines 146 to 169) runs: the four
  tests before it fail on the primary command and its own test succeeds.\<close>

definition blocked_branch :: "string \<Rightarrow> bool" where
  "blocked_branch primary_command =
     (\<not> py_in ''FORWARD'' primary_command \<and> \<not> py_in ''SLOW'' primary_command \<and>
      \<not> py_in ''OBSTACLE_LEFT'' primary_command \<and> \<not> py_in ''OBSTACLE_RIGHT'' primary_command \<and>
      py_in ''BLOCKED'' primary_command)"

text \<open>Three environments: the path is always clear, the path is always blocked, the
  camera never delivers.\<close>

definition env_forward :: env where
  "env_forward i = \<lparr>camera = CameraOk, vision = VisionOk ''Forward: clear path'', move = MoveOk 2\<rparr>"

definition env_blocked :: env where
  "env_blocked i =
     \<lparr>camera = CameraOk, vision = VisionOk ''BLOCKED\<newline>wall ahead'', move = MoveOk 1\<rparr>"

definition env_camera_down :: env where
  "env_camera_down i =
     \<lparr>camera = CameraNoContent, vision = VisionOk ''FORWARD'', move = MoveOk 2\<rparr>"

section \<open>Every iteration takes a step\<close>

lemma loop_body_step: "step (snd (loop_body env s)) = Suc (step s)"
  by (simp add: loop_body_def emit_def send_movement_def Let_def
      split: vision_result.split decision.split prod.split move_result.split)

section \<open>The command window\<close>

text \<open>
  Claim C1. A call of \<open>get_base_command\<close> at a time strictly after the stored
  \<open>command_until_walltime\<close> returns \<open>(0, 0, 0)\<close> whatever vector is stored, and any other
  call returns the stored vector. Expiry is decided at the read, from the read's own clock
  value: the bridge that a write leaves behind still holds the written vector, and the same
  bridge answers with the vector up to \<open>t + max 0 d\<close> and with zeros afterwards.
\<close>

theorem get_base_command_expiry:
  "(now > command_until_walltime b \<longrightarrow> get_base_command now b = (0, 0, 0)) \<and>
   (\<not> now > command_until_walltime b \<longrightarrow> get_base_command now b = base_command b) \<and>
   get_base_command now (set_base_command t vx vy w d b0) =
     (if now > t + max 0 d then (0, 0, 0) else (vx, vy, w)) \<and>
   base_command (set_base_command t vx vy w d b0) = (vx, vy, w)"
  by (simp add: get_base_command_def set_base_command_def Let_def)

text \<open>A command written at time 8 for 2 seconds, read at 11 (expired) and at 10 (the last
  instant of its window).\<close>

theorem get_base_command_expiry_witness:
  "get_base_command 11 (set_base_command 8 1 0 (1 / 2) 2 example_bridge) = (0, 0, 0) \<and>
   get_base_command 10 (set_base_command 8 1 0 (1 / 2) 2 example_bridge) = (1, 0, 1 / 2) \<and>
   base_command (set_base_command 8 1 0 (1 / 2) 2 example_bridge) = (1, 0, 1 / 2)"
  using get_base_command_expiry [where now = 11 and b = "set_base_command 8 1 0 (1 / 2) 2 example_bridge"
      and t = 8 and vx = 1 and vy = 0 and w = "1 / 2" and d = 2 and ?b0.0 = example_bridge]
    get_base_command_expiry [where now = 10 and b = "set_base_command 8 1 0 (1 / 2) 2 example_bridge"
      and t = 8 and vx = 1 and vy = 0 and w = "1 / 2" and d = 2 and ?b0.0 = example_bridge]
  by (simp add: set_base_command_def example_bridge_def)

text \<open>
  Claim C2. For a negative duration the effective duration is \<open>max 0 d = 0\<close>: the command
  expires at the time of the write, and every strictly later read returns \<open>(0, 0, 0)\<close>.
\<close>

theorem set_base_command_negative_duration:
  assumes "d < 0"
  shows "command_until_walltime (set_base_command now vx vy w d b) = now \<and>
         base_command (set_base_command now vx vy w d b) = (vx, vy, w) \<and>
         (\<forall>later. later > now \<longrightarrow>
            get_base_command later (set_base_command now vx vy w d b) = (0, 0, 0))"
  using assms by (simp add: get_base_command_def set_base_command_def Let_def max_def)

text \<open>A write at time 5 with duration -3, read at time 6.\<close>

theorem set_base_command_negative_duration_witness:
  "(- 3 :: real) < 0 \<and>
   command_until_walltime (set_base_command 5 1 2 3 (- 3) example_bridge) = 5 \<and>
   get_base_command 6 (set_base_command 5 1 2 3 (- 3) example_bridge) = (0, 0, 0)"
proof -
  have neg: "(- 3 :: real) < 0" by simp
  from set_base_command_negative_duration [OF neg, where now = 5 and vx = 1 and vy = 2 and w = 3 and b = example_bridge]
  show ?thesis by simp
qed

lemma forward_command: "direction_to_command ''forward'' 1 (4 / 5) = Inr (1, 0, 0)"
  by (simp add: direction_to_command_def py_lower_def py_strip_def py_isspace_def
      lower_char_def ascii_uppercase_def ascii_lowercase_def)

section \<open>The producer API reports the requested duration\<close>

text \<open>
  Claim C10. For a direction that \<open>direction_to_command\<close> accepts, \<open>giveMoveCommand\<close>
  succeeds, the \<open>duration_s\<close> of the applied record it returns is the requested length as
  given (negative when the length is negative), and the bridge holds the translated vector
  with the window clamped: it ends at \<open>now + max 0 length\<close>.
\<close>

theorem giveMoveCommand_duration_unclamped:
  assumes "direction_to_command direction speed yaw_rate = Inr v"
  shows "\<exists>r b'. giveMoveCommand now direction length_s speed yaw_rate b = Inr (r, b') \<and>
           ok r \<and>
           applied_duration_s (applied r) = length_s \<and>
           (applied_vx (applied r), applied_vy (applied r), applied_yaw_rate (applied r)) = v \<and>
           base_command b' = v \<and>
           command_until_walltime b' = now + max 0 length_s"
  using assms
  by (cases v) (simp add: giveMoveCommand_def set_base_command_def Let_def)

text \<open>Forward for -2 seconds at time 10: reported as -2, stored as a window that ends
  at 10.\<close>

theorem giveMoveCommand_duration_unclamped_witness:
  "direction_to_command ''forward'' 1 (4 / 5) = Inr (1, 0, 0) \<and>
   (\<exists>r b'. giveMoveCommand 10 ''forward'' (- 2) 1 (4 / 5) example_bridge = Inr (r, b') \<and>
      applied_duration_s (applied r) = - 2 \<and>
      command_until_walltime b' = 10)"
proof -
  from giveMoveCommand_duration_unclamped [OF forward_command, where now = 10 and length_s = "- 2" and b = example_bridge]
  obtain r b' where
    "giveMoveCommand 10 ''forward'' (- 2) 1 (4 / 5) example_bridge = Inr (r, b')"
    "applied_duration_s (applied r) = - 2"
    "command_until_walltime b' = 10 + max 0 (- 2)"
    by blast
  then show ?thesis using forward_command by force
qed

section \<open>The direction translator\<close>

text \<open>Lowering the case changes no whitespace, so stripping and lowering commute, and two
  tokens that differ in case only translate alike.\<close>

lemma isspace_lower_char: "py_isspace (lower_char c) = py_isspace c"
  by (cases "c \<in> set ascii_uppercase")
    (auto simp: lower_char_def py_isspace_def ascii_uppercase_def ascii_lowercase_def)

lemma strip_lower: "py_strip (py_lower s) = py_lower (py_strip s)"
proof -
  have comp: "py_isspace \<circ> lower_char = py_isspace"
    by (rule ext) (simp add: isspace_lower_char)
  show ?thesis
    by (simp add: py_strip_def py_lower_def dropWhile_map rev_map comp)
qed

lemma direction_to_command_case:
  assumes "py_lower d1 = py_lower d2"
  shows "direction_to_command d1 speed yaw_rate = direction_to_command d2 speed yaw_rate"
proof -
  have "py_lower (py_strip d1) = py_lower (py_strip d2)"
    using assms strip_lower [of d1] strip_lower [of d2] by simp
  then show ?thesis by (simp add: direction_to_command_def)
qed

text \<open>The token \<open>" forward"\<close>, with a space in front, is none of the table's tokens in any
  case, yet it is translated: the token is stripped before the lookup.\<close>

theorem direction_to_command_padded_counterexample:
  "py_lower '' forward'' \<notin> direction_tokens \<and>
   direction_to_command '' forward'' 1 (4 / 5) = Inr (1, 0, 0)"
  by (simp add: direction_to_command_def direction_tokens_def py_lower_def py_strip_def
      py_isspace_def lower_char_def ascii_uppercase_def ascii_lowercase_def)

text \<open>
  Claim C7, amended. \<open>direction_to_command\<close> is a function of the token with the whitespace
  around it stripped and its case lowered: forward/fwd/front give \<open>(speed, 0, 0)\<close>,
  back/backward/reverse \<open>(-speed, 0, 0)\<close>, left/strafe_left \<open>(0, speed, 0)\<close>,
  right/strafe_right \<open>(0, -speed, 0)\<close>, turn_left/yaw_left/rotate_left \<open>(0, 0, yaw_rate)\<close>,
  turn_right/yaw_right/rotate_right \<open>(0, 0, -yaw_rate)\<close>, stop/halt \<open>(0, 0, 0)\<close>; a token
  whose stripped, lowered form is none of these fails with \<open>ValueError\<close>; and tokens that
  are equal up to case give the same result.
\<close>

theorem direction_to_command_table:
  assumes "ascii_text direction" and "d = py_lower (py_strip direction)"
  shows "(d \<in> {''forward'', ''fwd'', ''front''} \<longrightarrow>
            direction_to_command direction speed yaw_rate = Inr (speed, 0, 0)) \<and>
         (d \<in> {''back'', ''backward'', ''reverse''} \<longrightarrow>
            direction_to_command direction speed yaw_rate = Inr (- speed, 0, 0)) \<and>
         (d \<in> {''left'', ''strafe_left''} \<longrightarrow>
            direction_to_command direction speed yaw_rate = Inr (0, speed, 0)) \<and>
         (d \<in> {''right'', ''strafe_right''} \<longrightarrow>
            direction_to_command direction speed yaw_rate = Inr (0, - speed, 0)) \<and>
         (d \<in> {''turn_left'', ''yaw_left'', ''rotate_left''} \<longrightarrow>
            direction_to_command direction speed yaw_rate = Inr (0, 0, yaw_rate)) \<and>
         (d \<in> {''turn_right'', ''yaw_right'', ''rotate_right''} \<longrightarrow>
            direction_to_command direction speed yaw_rate = Inr (0, 0, - yaw_rate)) \<and>
         (d \<in> {''stop'', ''halt''} \<longrightarrow>
            direction_to_command direction speed yaw_rate = Inr (0, 0, 0)) \<and>
         (d \<notin> direction_tokens \<longrightarrow>
            direction_to_command direction speed yaw_rate = Inl ValueError) \<and>
         (\<forall>other. ascii_text other \<and> py_lower other = py_lower direction \<longrightarrow>
            direction_to_command other speed yaw_rate =
            direction_to_command direction speed yaw_rate)"
proof -
  have table: "direction_to_command direction speed yaw_rate =
     (if d \<in> {''forward'', ''fwd'', ''front''} then Inr (speed, 0, 0)
      else if d \<in> {''back'', ''backward'', ''reverse''} then Inr (- speed, 0, 0)
      else if d \<in> {''left'', ''strafe_left''} then Inr (0, speed, 0)
      else if d \<in> {''right'', ''strafe_right''} then Inr (0, - speed, 0)
      else if d \<in> {''turn_left'', ''yaw_left'', ''rotate_left''} then Inr (0, 0, yaw_rate)
      else if d \<in> {''turn_right'', ''yaw_right'', ''rotate_right''} then Inr (0, 0, - yaw_rate)
      else if d \<in> {''stop'', ''halt''} then Inr (0, 0, 0)
      else Inl ValueError)"
    unfolding direction_to_command_def assms(2) Let_def ..
  have "d \<in> {''forward'', ''fwd'', ''front''} \<longrightarrow>
            direction_to_command direction speed yaw_rate = Inr (speed, 0, 0)"
    by (simp add: table)
  moreover have "d \<in> {''back'', ''backward'', ''reverse''} \<longrightarrow>
            direction_to_command direction speed yaw_rate = Inr (- speed, 0, 0)"
    by (auto simp: table)
  moreover have "d \<in> {''left'', ''strafe_left''} \<longrightarrow>
            direction_to_command direction speed yaw_rate = Inr (0, speed, 0)"
    by (auto simp: table)
  moreover have "d \<in> {''right'', ''strafe_right''} \<longrightarrow>
            direction_to_command direction speed yaw_rate = Inr (0, - speed, 0)"
    by (auto simp: table)
  moreover have "d \<in> {''turn_left'', ''yaw_left'', ''rotate_left''} \<longrightarrow>
            direction_to_command direction speed yaw_rate = Inr (0, 0, yaw_rate)"
    by (auto simp: table)
  moreover have "d \<in> {''turn_right'', ''yaw_right'', ''rotate_right''} \<longrightarrow>
            direction_to_command direction speed yaw_rate = Inr (0, 0, - yaw_rate)"
    by (auto simp: table)
  moreover have "d \<in> {''stop'', ''halt''} \<longrightarrow>
            direction_to_command direction speed yaw_rate = Inr (0, 0, 0)"
    by (auto simp: table)
  moreover have "d \<notin> direction_tokens \<longrightarrow>
            direction_to_command direction speed yaw_rate = Inl ValueError"
    by (simp add: table direction_tokens_def)
  moreover have "\<forall>other. ascii_text other \<and> py_lower other = py_lower direction \<longrightarrow>
            direction_to_command other speed yaw_rate =
            direction_to_command direction speed yaw_rate"
    using direction_to_command_case by blast
  ultimately show ?thesis by blast
qed

text \<open>The stripped, lowered forms of two tokens.\<close>

lemma turn_left_token: "py_lower (py_strip ''  Turn_LEFT'') = ''turn_left''"
  by (simp add: py_lower_def py_strip_def py_isspace_def lower_char_def
      ascii_uppercase_def ascii_lowercase_def)

lemma diagonal_token: "py_lower (py_strip ''diagonal'') = ''diagonal''"
  by (simp add: py_lower_def py_strip_def py_isspace_def lower_char_def
      ascii_uppercase_def ascii_lowercase_def)

theorem direction_to_command_table_witness:
  "ascii_text ''  Turn_LEFT'' \<and>
   direction_to_command ''  Turn_LEFT'' 1 (4 / 5) = Inr (0, 0, 4 / 5) \<and>
   ascii_text ''diagonal'' \<and> ''diagonal'' \<notin> direction_tokens \<and>
   direction_to_command ''diagonal'' 1 (4 / 5) = Inl ValueError"
proof -
  have a1: "ascii_text ''  Turn_LEFT''" and a2: "ascii_text ''diagonal''"
    by (simp_all add: ascii_text_def)
  have notin: "''diagonal'' \<notin> direction_tokens"
    by (simp add: direction_tokens_def)
  from direction_to_command_table [OF a1 turn_left_token [symmetric], of 1 "4 / 5"]
  have "direction_to_command ''  Turn_LEFT'' 1 (4 / 5) = Inr (0, 0, 4 / 5)"
    by simp
  moreover from direction_to_command_table [OF a2 diagonal_token [symmetric], of 1 "4 / 5"]
  have "direction_to_command ''diagonal'' 1 (4 / 5) = Inl ValueError"
    by (simp add: direction_tokens_def)
  ultimately show ?thesis using a1 a2 notin by simp
qed

section \<open>The decision policy\<close>

text \<open>Raising the case makes and removes no line feed, so the first line of the raised
  text is the raised first line.\<close>

lemma upper_char_newline: "(upper_char c = CHR 0x0A) = (c = CHR 0x0A)"
  by (cases "c \<in> set ascii_lowercase")
    (auto simp: upper_char_def ascii_uppercase_def ascii_lowercase_def)

lemma first_line_upper: "first_line (py_upper r) = py_upper (first_line r)"
proof -
  have comp: "(\<lambda>c. c \<noteq> CHR 0x0A) \<circ> upper_char = (\<lambda>c. c \<noteq> CHR 0x0A)"
    by (rule ext) (simp add: upper_char_newline)
  show ?thesis
    by (simp add: first_line_def py_upper_def takeWhile_map comp)
qed

text \<open>An iteration that gets a frame and a text, and decides for a movement, sends that
  movement and goes on.\<close>

lemma decide_command_nonempty:
  "decide r n = (Move cmd speed duration, n') \<Longrightarrow> cmd \<noteq> []"
  by (auto simp: decide_def Let_def split: if_splits)

lemma loop_body_move:
  assumes "camera (env (Suc (step s))) = CameraOk"
    and "vision (env (Suc (step s))) = VisionOk r" and "r \<noteq> []"
    and "decide r (consecutive_stops s) = (Move cmd speed duration, n')"
  shows "fst (loop_body env s) = Continue \<and>
         step (snd (loop_body env s)) = Suc (step s) \<and>
         consecutive_stops (snd (loop_body env s)) = n' \<and>
         commands (snd (loop_body env s)) =
           commands s @ [CallGiveMoveCommand cmd duration speed (4 / 5)]"
  using assms decide_command_nonempty [OF assms(4)]
  by (simp add: loop_body_def emit_def send_movement_def commands_def Let_def
      split: move_result.split)


text \<open>
  Claim C8. The decision token is the uppercased first line of the response. It is tested
  for FORWARD, SLOW, OBSTACLE_LEFT, OBSTACLE_RIGHT and BLOCKED in this order, the first
  test that succeeds deciding: FORWARD gives (forward, speed 1.0, duration 2.0), SLOW
  (forward, 1.0, 1.0), OBSTACLE_LEFT (left, 1.0, 1.0), OBSTACLE_RIGHT (right, 1.0, 1.0), and
  when none of the five succeeds the decision is the cautious (forward, 1.0, 1.0). Each of
  these decisions sets \<open>consecutive_stops\<close> to 0, and the iteration that takes it sends the
  movement with that duration and speed and leaves the counter at that value.
\<close>

theorem decision_policy:
  assumes "ascii_text r" and "p = first_line (py_upper r)"
  shows "p = py_upper (first_line r) \<and>
    (py_in ''FORWARD'' p \<longrightarrow> decide r n = (Move ''forward'' 1 2, 0)) \<and>
    (\<not> py_in ''FORWARD'' p \<and> py_in ''SLOW'' p \<longrightarrow> decide r n = (Move ''forward'' 1 1, 0)) \<and>
    (\<not> py_in ''FORWARD'' p \<and> \<not> py_in ''SLOW'' p \<and> py_in ''OBSTACLE_LEFT'' p \<longrightarrow>
       decide r n = (Move ''left'' 1 1, 0)) \<and>
    (\<not> py_in ''FORWARD'' p \<and> \<not> py_in ''SLOW'' p \<and> \<not> py_in ''OBSTACLE_LEFT'' p \<and>
     py_in ''OBSTACLE_RIGHT'' p \<longrightarrow> decide r n = (Move ''right'' 1 1, 0)) \<and>
    (\<not> py_in ''FORWARD'' p \<and> \<not> py_in ''SLOW'' p \<and> \<not> py_in ''OBSTACLE_LEFT'' p \<and>
     \<not> py_in ''OBSTACLE_RIGHT'' p \<and> \<not> py_in ''BLOCKED'' p \<longrightarrow>
       decide r n = (Move ''forward'' 1 1, 0)) \<and>
    (\<forall>env s cmd speed duration n'.
       camera (env (Suc (step s))) = CameraOk \<and> vision (env (Suc (step s))) = VisionOk r \<and>
       r \<noteq> [] \<and> decide r (consecutive_stops s) = (Move cmd speed duration, n') \<longrightarrow>
       fst (loop_body env s) = Continue \<and>
       consecutive_stops (snd (loop_body env s)) = n' \<and>
       commands (snd (loop_body env s)) =
         commands s @ [CallGiveMoveCommand cmd duration speed (4 / 5)])"
proof -
  have token: "p = py_upper (first_line r)"
    by (simp add: assms(2) first_line_upper)
  have chain: "decide r n =
     (if py_in ''FORWARD'' p then (Move ''forward'' 1 2, 0)
      else if py_in ''SLOW'' p then (Move ''forward'' 1 1, 0)
      else if py_in ''OBSTACLE_LEFT'' p then (Move ''left'' 1 1, 0)
      else if py_in ''OBSTACLE_RIGHT'' p then (Move ''right'' 1 1, 0)
      else if py_in ''BLOCKED'' p then
        (let n' = n + 1
         in if n' \<le> 2 then (Move ''turn_left'' 1 1, n')
            else if n' \<le> 4 then (Move ''turn_right'' 1 1, n')
            else (GiveUp, n'))
      else (Move ''forward'' 1 1, 0))"
    unfolding decide_def assms(2) Let_def ..
  have forward: "py_in ''FORWARD'' p \<longrightarrow> decide r n = (Move ''forward'' 1 2, 0)"
    by (simp add: chain)
  have slow: "\<not> py_in ''FORWARD'' p \<and> py_in ''SLOW'' p \<longrightarrow>
      decide r n = (Move ''forward'' 1 1, 0)"
    by (simp add: chain)
  have left: "\<not> py_in ''FORWARD'' p \<and> \<not> py_in ''SLOW'' p \<and> py_in ''OBSTACLE_LEFT'' p \<longrightarrow>
       decide r n = (Move ''left'' 1 1, 0)"
    by (simp add: chain)
  have right: "\<not> py_in ''FORWARD'' p \<and> \<not> py_in ''SLOW'' p \<and> \<not> py_in ''OBSTACLE_LEFT'' p \<and>
     py_in ''OBSTACLE_RIGHT'' p \<longrightarrow> decide r n = (Move ''right'' 1 1, 0)"
    by (simp add: chain)
  have fallback: "\<not> py_in ''FORWARD'' p \<and> \<not> py_in ''SLOW'' p \<and> \<not> py_in ''OBSTACLE_LEFT'' p \<and>
     \<not> py_in ''OBSTACLE_RIGHT'' p \<and> \<not> py_in ''BLOCKED'' p \<longrightarrow>
       decide r n = (Move ''forward'' 1 1, 0)"
    by (simp add: chain)
  have body: "\<forall>env s cmd speed duration n'.
       camera (env (Suc (step s))) = CameraOk \<and> vision (env (Suc (step s))) = VisionOk r \<and>
       r \<noteq> [] \<and> decide r (consecutive_stops s) = (Move cmd speed duration, n') \<longrightarrow>
       fst (loop_body env s) = Continue \<and>
       consecutive_stops (snd (loop_body env s)) = n' \<and>
       commands (snd (loop_body env s)) =
         commands s @ [CallGiveMoveCommand cmd duration speed (4 / 5)]"
    using loop_body_move by blast
  from token forward slow left right fallback body show ?thesis
    by (intro conjI)
qed


text \<open>Two responses: a clear path in mixed case, and a text with no keyword on its first
  line (the keyword on its second line is not looked at).\<close>

lemma forward_line: "first_line (py_upper ''Forward: clear path'') = ''FORWARD: CLEAR PATH''"
  by (simp add: first_line_def py_upper_def upper_char_def ascii_uppercase_def
      ascii_lowercase_def)

lemma unsure_line: "first_line (py_upper ''not sure\<newline>blocked?'') = ''NOT SURE''"
  by (simp add: first_line_def py_upper_def upper_char_def ascii_uppercase_def
      ascii_lowercase_def)

theorem decision_policy_witness:
  "ascii_text ''Forward: clear path'' \<and>
   decide ''Forward: clear path'' 3 = (Move ''forward'' 1 2, 0) \<and>
   ascii_text ''not sure\<newline>blocked?'' \<and>
   decide ''not sure\<newline>blocked?'' 3 = (Move ''forward'' 1 1, 0) \<and>
   fst (loop_body env_forward initial_state) = Continue \<and>
   consecutive_stops (snd (loop_body env_forward initial_state)) = 0 \<and>
   commands (snd (loop_body env_forward initial_state)) =
     [CallGiveMoveCommand ''forward'' 2 1 (4 / 5)]"
proof -
  have a1: "ascii_text ''Forward: clear path''" and a2: "ascii_text ''not sure\<newline>blocked?''"
    by (simp_all add: ascii_text_def)
  note t1 = decision_policy [OF a1 forward_line [symmetric]]
  note t2 = decision_policy [OF a2 unsure_line [symmetric], of 3]
  have d0: "decide ''Forward: clear path'' 0 = (Move ''forward'' 1 2, 0)"
    using t1 [of 0, THEN conjunct2, THEN conjunct1] by simp
  have d1: "decide ''Forward: clear path'' 3 = (Move ''forward'' 1 2, 0)"
    using t1 [of 3, THEN conjunct2, THEN conjunct1] by simp
  have d2: "decide ''not sure\<newline>blocked?'' 3 = (Move ''forward'' 1 1, 0)"
    using t2 [THEN conjunct2, THEN conjunct2, THEN conjunct2, THEN conjunct2, THEN conjunct2,
        THEN conjunct1]
    by simp
  have body: "fst (loop_body env_forward initial_state) = Continue \<and>
      consecutive_stops (snd (loop_body env_forward initial_state)) = 0 \<and>
      commands (snd (loop_body env_forward initial_state)) =
        commands initial_state @ [CallGiveMoveCommand ''forward'' 2 1 (4 / 5)]"
    using t1 [of 0, THEN conjunct2, THEN conjunct2, THEN conjunct2, THEN conjunct2,
        THEN conjunct2, THEN conjunct2, rule_format,
        of env_forward initial_state "''forward''" 1 2 0] d0
    by (simp add: env_forward_def initial_state_def)
  have "commands initial_state = []"
    by (simp add: commands_def initial_state_def)
  with a1 a2 d1 d2 body show ?thesis by simp
qed

section \<open>Escalation when blocked\<close>

text \<open>What the \<open>BLOCKED\<close> branch decides, and what an iteration that takes it does.\<close>

lemma blocked_nonempty: "blocked_branch (first_line (py_upper r)) \<Longrightarrow> r \<noteq> []"
  by (auto simp: blocked_branch_def first_line_def py_upper_def)

lemma decide_blocked:
  assumes "blocked_branch (first_line (py_upper r))"
  shows "decide r n =
     (if n + 1 \<le> 2 then (Move ''turn_left'' 1 1, n + 1)
      else if n + 1 \<le> 4 then (Move ''turn_right'' 1 1, n + 1)
      else (GiveUp, n + 1))"
  using assms by (simp add: decide_def blocked_branch_def Let_def)

lemma loop_body_blocked_turn:
  assumes "camera (env (Suc (step s))) = CameraOk"
    and "vision (env (Suc (step s))) = VisionOk r"
    and "blocked_branch (first_line (py_upper r))"
    and "consecutive_stops s < 4"
  shows "fst (loop_body env s) = Continue \<and>
         step (snd (loop_body env s)) = Suc (step s) \<and>
         consecutive_stops (snd (loop_body env s)) = Suc (consecutive_stops s) \<and>
         distance_moved (snd (loop_body env s)) = distance_moved s \<and>
         commands (snd (loop_body env s)) =
           commands s @ [CallGiveMoveCommand
             (if consecutive_stops s < 2 then ''turn_left'' else ''turn_right'') 1 1 (4 / 5)]"
  using assms blocked_nonempty [OF assms(3)]
  by (simp add: loop_body_def decide_blocked emit_def send_movement_def commands_def Let_def
      split: move_result.split)

lemma loop_body_blocked_stop:
  assumes "camera (env (Suc (step s))) = CameraOk"
    and "vision (env (Suc (step s))) = VisionOk r"
    and "blocked_branch (first_line (py_upper r))"
    and "4 \<le> consecutive_stops s"
  shows "fst (loop_body env s) = Break \<and>
         step (snd (loop_body env s)) = Suc (step s) \<and>
         consecutive_stops (snd (loop_body env s)) = Suc (consecutive_stops s) \<and>
         distance_moved (snd (loop_body env s)) = distance_moved s \<and>
         commands (snd (loop_body env s)) = commands s @ [CallStop]"
  using assms blocked_nonempty [OF assms(3)]
  by (simp add: loop_body_def decide_blocked emit_def commands_def Let_def)

text \<open>The loop, one iteration at a time.\<close>

lemma navigate_loop_continue:
  assumes "step s < max_steps" and "fst (loop_body env s) = Continue"
  shows "navigate_loop env max_steps s = navigate_loop env max_steps (snd (loop_body env s))"
proof -
  obtain s' where body: "loop_body env s = (Continue, s')"
    using assms(2) by (cases "loop_body env s") simp
  show ?thesis
    using assms(1) navigate_loop.simps [of env max_steps s] by (simp add: body)
qed

lemma navigate_loop_break:
  assumes "step s < max_steps" and "fst (loop_body env s) = Break"
  shows "navigate_loop env max_steps s = snd (loop_body env s)"
proof -
  obtain s' where body: "loop_body env s = (Break, s')"
    using assms(2) by (cases "loop_body env s") simp
  show ?thesis
    using assms(1) navigate_loop.simps [of env max_steps s] by (simp add: body)
qed

lemma navigate_loop_done: "\<not> step s < max_steps \<Longrightarrow> navigate_loop env max_steps s = s"
  using navigate_loop.simps [of env max_steps s] by simp


text \<open>
  Claim C3. When the first line matches BLOCKED (and no test before it), the counter is
  incremented and decides: counts 1 and 2 turn left, counts 3 and 4 turn right, a count of
  5 or more gives up, which stops the robot and ends the loop. Five such iterations in a
  row, from a counter of 0 and with room for five steps, issue turn_left, turn_left,
  turn_right, turn_right and stop in this order, and the loop ends after the fifth.
\<close>

theorem blocked_escalation:
  assumes ascii: "ascii_text r"
    and blocked: "blocked_branch (first_line (py_upper r))"
    and env: "\<forall>i \<in> {step s + 1 .. step s + 5}.
                camera (env i) = CameraOk \<and> vision (env i) = VisionOk r"
    and zero: "consecutive_stops s = 0"
    and room: "step s + 5 \<le> max_steps"
  shows "decide r n =
           (if n + 1 \<le> 2 then (Move ''turn_left'' 1 1, n + 1)
            else if n + 1 \<le> 4 then (Move ''turn_right'' 1 1, n + 1)
            else (GiveUp, n + 1)) \<and>
         commands (navigate_loop env max_steps s) =
           commands s @
           [CallGiveMoveCommand ''turn_left'' 1 1 (4 / 5),
            CallGiveMoveCommand ''turn_left'' 1 1 (4 / 5),
            CallGiveMoveCommand ''turn_right'' 1 1 (4 / 5),
            CallGiveMoveCommand ''turn_right'' 1 1 (4 / 5),
            CallStop] \<and>
         step (navigate_loop env max_steps s) = step s + 5 \<and>
         consecutive_stops (navigate_loop env max_steps s) = 5"
proof -
  define s1 where "s1 = snd (loop_body env s)"
  define s2 where "s2 = snd (loop_body env s1)"
  define s3 where "s3 = snd (loop_body env s2)"
  define s4 where "s4 = snd (loop_body env s3)"
  define s5 where "s5 = snd (loop_body env s4)"
  have obs: "camera (env i) = CameraOk \<and> vision (env i) = VisionOk r"
    if "step s < i" "i \<le> step s + 5" for i
    using env that by simp
  have o1: "camera (env (Suc (step s))) = CameraOk \<and> vision (env (Suc (step s))) = VisionOk r"
    by (rule obs) simp_all
  have b1: "fst (loop_body env s) = Continue \<and> step s1 = step s + 1 \<and>
      consecutive_stops s1 = 1 \<and>
      commands s1 = commands s @ [CallGiveMoveCommand ''turn_left'' 1 1 (4 / 5)]"
    using loop_body_blocked_turn [of env s r] o1 blocked zero
    by (simp add: s1_def)
  have o2: "camera (env (Suc (step s1))) = CameraOk \<and> vision (env (Suc (step s1))) = VisionOk r"
    by (rule obs) (simp_all add: b1)
  have b2: "fst (loop_body env s1) = Continue \<and> step s2 = step s + 2 \<and>
      consecutive_stops s2 = 2 \<and>
      commands s2 = commands s1 @ [CallGiveMoveCommand ''turn_left'' 1 1 (4 / 5)]"
    using loop_body_blocked_turn [of env s1 r] o2 blocked b1
    by (simp add: s2_def)
  have o3: "camera (env (Suc (step s2))) = CameraOk \<and> vision (env (Suc (step s2))) = VisionOk r"
    by (rule obs) (simp_all add: b2)
  have b3: "fst (loop_body env s2) = Continue \<and> step s3 = step s + 3 \<and>
      consecutive_stops s3 = 3 \<and>
      commands s3 = commands s2 @ [CallGiveMoveCommand ''turn_right'' 1 1 (4 / 5)]"
    using loop_body_blocked_turn [of env s2 r] o3 blocked b2
    by (simp add: s3_def)
  have o4: "camera (env (Suc (step s3))) = CameraOk \<and> vision (env (Suc (step s3))) = VisionOk r"
    by (rule obs) (simp_all add: b3)
  have b4: "fst (loop_body env s3) = Continue \<and> step s4 = step s + 4 \<and>
      consecutive_stops s4 = 4 \<and>
      commands s4 = commands s3 @ [CallGiveMoveCommand ''turn_right'' 1 1 (4 / 5)]"
    using loop_body_blocked_turn [of env s3 r] o4 blocked b3
    by (simp add: s4_def)
  have o5: "camera (env (Suc (step s4))) = CameraOk \<and> vision (env (Suc (step s4))) = VisionOk r"
    by (rule obs) (simp_all add: b4)
  have b5: "fst (loop_body env s4) = Break \<and> step s5 = step s + 5 \<and>
      consecutive_stops s5 = 5 \<and> commands s5 = commands s4 @ [CallStop]"
    using loop_body_blocked_stop [of env s4 r] o5 blocked b4
    by (simp add: s5_def)
  have "navigate_loop env max_steps s = navigate_loop env max_steps s1"
    unfolding s1_def using room b1 by (intro navigate_loop_continue) simp_all
  also have "\<dots> = navigate_loop env max_steps s2"
    unfolding s2_def using room b1 b2 by (intro navigate_loop_continue) simp_all
  also have "\<dots> = navigate_loop env max_steps s3"
    unfolding s3_def using room b2 b3 by (intro navigate_loop_continue) simp_all
  also have "\<dots> = navigate_loop env max_steps s4"
    unfolding s4_def using room b3 b4 by (intro navigate_loop_continue) simp_all
  also have "\<dots> = s5"
    unfolding s5_def using room b4 b5 by (intro navigate_loop_break) simp_all
  finally have run: "navigate_loop env max_steps s = s5" .
  have "commands s5 = commands s @
           [CallGiveMoveCommand ''turn_left'' 1 1 (4 / 5),
            CallGiveMoveCommand ''turn_left'' 1 1 (4 / 5),
            CallGiveMoveCommand ''turn_right'' 1 1 (4 / 5),
            CallGiveMoveCommand ''turn_right'' 1 1 (4 / 5),
            CallStop]"
    using b1 b2 b3 b4 b5 by simp
  with run b5 decide_blocked [OF blocked, of n] show ?thesis
    by simp
qed

text \<open>The scenario of the spec: "BLOCKED", then "wall ahead" on the next line, from the
  initial state.\<close>

lemma blocked_line:
  "first_line (py_upper ''BLOCKED\<newline>wall ahead'') = ''BLOCKED''"
  by (simp add: first_line_def py_upper_def upper_char_def ascii_uppercase_def
      ascii_lowercase_def)

theorem blocked_escalation_witness:
  "ascii_text ''BLOCKED\<newline>wall ahead'' \<and>
   blocked_branch (first_line (py_upper ''BLOCKED\<newline>wall ahead'')) \<and>
   consecutive_stops initial_state = 0 \<and> step initial_state + 5 \<le> 100 \<and>
   decide ''BLOCKED\<newline>wall ahead'' 4 = (GiveUp, 5) \<and>
   commands (navigate_loop env_blocked 100 initial_state) =
     [CallGiveMoveCommand ''turn_left'' 1 1 (4 / 5),
      CallGiveMoveCommand ''turn_left'' 1 1 (4 / 5),
      CallGiveMoveCommand ''turn_right'' 1 1 (4 / 5),
      CallGiveMoveCommand ''turn_right'' 1 1 (4 / 5),
      CallStop] \<and>
   step (navigate_loop env_blocked 100 initial_state) = 5"
proof -
  have a: "ascii_text ''BLOCKED\<newline>wall ahead''"
    by (simp add: ascii_text_def)
  have b: "blocked_branch (first_line (py_upper ''BLOCKED\<newline>wall ahead''))"
    by (simp add: blocked_line blocked_branch_def)
  have e: "\<forall>i \<in> {step initial_state + 1 .. step initial_state + 5}.
      camera (env_blocked i) = CameraOk \<and> vision (env_blocked i) = VisionOk ''BLOCKED\<newline>wall ahead''"
    by (simp add: env_blocked_def)
  have z: "consecutive_stops initial_state = 0" and r: "step initial_state + 5 \<le> 100"
    by (simp_all add: initial_state_def)
  have c: "commands initial_state = []" and st: "step initial_state = 0"
    by (simp_all add: commands_def initial_state_def)
  from blocked_escalation [OF a b e z r, of 4] a b z r c st show ?thesis
    by simp
qed

section \<open>Failed iterations\<close>

text \<open>A run in which the camera never delivers: every iteration gives up at the camera,
  nothing is commanded, and the loop ends when the step counter reaches the maximum.\<close>

lemma failed_run:
  assumes "\<forall>i. camera (env i) \<noteq> CameraOk"
  shows "step (navigate_loop env max_steps s) = max (step s) max_steps \<and>
         commands (navigate_loop env max_steps s) = commands s \<and>
         distance_moved (navigate_loop env max_steps s) = distance_moved s"
  using assms
proof (induction env max_steps s rule: navigate_loop.induct)
  case (1 env max_steps s)
  show ?case
  proof (cases "step s < max_steps")
    case False
    then show ?thesis by (simp add: navigate_loop_done)
  next
    case True
    from "1.prems" have cam: "camera (env (Suc (step s))) \<noteq> CameraOk" by simp
    obtain s' where body: "loop_body env s = (Continue, s')"
      and s': "step s' = Suc (step s)" "commands s' = commands s"
        "distance_moved s' = distance_moved s"
      using cam by (simp add: loop_body_def emit_def commands_def)
    from "1.IH" [OF True body [symmetric] refl "1.prems"] s' True
    show ?thesis
      using navigate_loop_continue [OF True, of env] body by simp
  qed
qed


text \<open>With no camera frame the first iteration moves the step counter from 0 to 1, and
  the whole run ends at step 100 without having commanded anything: the failed iterations
  are the hundred steps.\<close>

theorem failed_iterations_use_steps_counterexample:
  "camera (env_camera_down (Suc (step initial_state))) = CameraNoContent \<and>
   step initial_state = 0 \<and>
   step (snd (loop_body env_camera_down initial_state)) = 1 \<and>
   step (navigate_loop env_camera_down 100 initial_state) = 100 \<and>
   commands (navigate_loop env_camera_down 100 initial_state) = []"
proof -
  have down: "\<forall>i. camera (env_camera_down i) \<noteq> CameraOk"
    by (simp add: env_camera_down_def)
  have one: "step (snd (loop_body env_camera_down initial_state)) = 1"
    by (simp add: loop_body_def env_camera_down_def initial_state_def emit_def)
  have start: "step initial_state = 0" "commands initial_state = []"
    by (simp_all add: initial_state_def commands_def)
  have cam: "camera (env_camera_down (Suc (step initial_state))) = CameraNoContent"
    by (simp add: env_camera_down_def)
  from failed_run [OF down, of 100 initial_state] one start cam show ?thesis
    by simp
qed

text \<open>
  Claim C4, amended. An iteration in which the camera frame is unavailable, or the
  classification call raises, returns non-success or returns no text, backs off for a
  second and goes on with the next iteration: it commands nothing and leaves
  \<open>distance_moved\<close> and \<open>consecutive_stops\<close> as they were. The step counter was advanced at
  the head of the iteration and stays advanced, so the failed iteration counts toward the
  maximum number of steps.
\<close>

theorem failed_iteration_retries:
  assumes "camera (env (Suc (step s))) \<noteq> CameraOk \<or>
           vision (env (Suc (step s))) \<in> {VisionException, VisionNotOk, VisionOk []}"
  shows "fst (loop_body env s) = Continue \<and>
         step (snd (loop_body env s)) = Suc (step s) \<and>
         distance_moved (snd (loop_body env s)) = distance_moved s \<and>
         consecutive_stops (snd (loop_body env s)) = consecutive_stops s \<and>
         commands (snd (loop_body env s)) = commands s \<and>
         (\<exists>calls. trace (snd (loop_body env s)) = trace s @ calls @ [Sleep 1])"
proof (cases "camera (env (Suc (step s))) = CameraOk")
  case False
  then show ?thesis
    by (simp add: loop_body_def emit_def commands_def)
next
  case True
  with assms have "vision (env (Suc (step s))) \<in> {VisionException, VisionNotOk, VisionOk []}"
    by simp
  with True show ?thesis
    by (auto simp: loop_body_def emit_def commands_def)
qed

text \<open>The first iteration with the camera down.\<close>

theorem failed_iteration_retries_witness:
  "camera (env_camera_down (Suc (step initial_state))) \<noteq> CameraOk \<and>
   fst (loop_body env_camera_down initial_state) = Continue \<and>
   step (snd (loop_body env_camera_down initial_state)) = 1 \<and>
   commands (snd (loop_body env_camera_down initial_state)) = []"
proof -
  have down: "camera (env_camera_down (Suc (step initial_state))) \<noteq> CameraOk"
    by (simp add: env_camera_down_def)
  then have "camera (env_camera_down (Suc (step initial_state))) \<noteq> CameraOk \<or>
      vision (env_camera_down (Suc (step initial_state)))
        \<in> {VisionException, VisionNotOk, VisionOk []}"
    by (rule disjI1)
  from failed_iteration_retries [of env_camera_down initial_state, OF this] down show ?thesis
    by (simp add: initial_state_def commands_def)
qed

section \<open>How the loop ends\<close>

text \<open>A counter of at most 4 stays at most 4 through an iteration that goes on, and is 5
  after the iteration that breaks; the stop call is the break's.\<close>

lemma decide_counter:
  assumes "n \<le> 4" and "decide r n = (d, n')"
  shows "(d = GiveUp \<longrightarrow> n' = 5) \<and> (d \<noteq> GiveUp \<longrightarrow> n' \<le> 4)"
  using assms by (auto simp: decide_def Let_def split: if_splits)

lemma loop_body_invariant:
  assumes "consecutive_stops s \<le> 4" and "CallStop \<notin> set (trace s)"
  shows "(fst (loop_body env s) = Continue \<longrightarrow>
            consecutive_stops (snd (loop_body env s)) \<le> 4 \<and>
            CallStop \<notin> set (trace (snd (loop_body env s)))) \<and>
         (fst (loop_body env s) = Break \<longrightarrow>
            consecutive_stops (snd (loop_body env s)) = 5 \<and>
            trace (snd (loop_body env s)) =
              trace s @ [CallGetCameraImage, CallGetState, CallQueryVisionModel,
                         CallStop, Sleep 2])"
proof (cases "camera (env (Suc (step s))) = CameraOk")
  case False
  with assms show ?thesis
    by (simp add: loop_body_def emit_def)
next
  case cam: True
  show ?thesis
  proof (cases "vision (env (Suc (step s)))")
    case VisionException
    with cam assms show ?thesis by (simp add: loop_body_def emit_def)
  next
    case VisionNotOk
    with cam assms show ?thesis by (simp add: loop_body_def emit_def)
  next
    case (VisionOk r)
    show ?thesis
    proof (cases "r = []")
      case True
      with cam VisionOk assms show ?thesis by (simp add: loop_body_def emit_def)
    next
      case False
      obtain d n' where dec: "decide r (consecutive_stops s) = (d, n')"
        by (cases "decide r (consecutive_stops s)")
      note cnt = decide_counter [OF assms(1) dec]
      show ?thesis
      proof (cases d)
        case GiveUp
        with cam VisionOk False dec cnt assms show ?thesis
          by (simp add: loop_body_def emit_def)
      next
        case (Move cmd speed duration)
        with cam VisionOk False dec cnt assms show ?thesis
          by (simp add: loop_body_def emit_def send_movement_def Let_def
              split: move_result.split)
      qed
    qed
  qed
qed

lemma navigate_loop_invariant:
  assumes "consecutive_stops s \<le> 4" and "CallStop \<notin> set (trace s)" and "step s \<le> max_steps"
  shows "(step (navigate_loop env max_steps s) = max_steps \<and>
          CallStop \<notin> set (trace (navigate_loop env max_steps s))) \<or>
         (consecutive_stops (navigate_loop env max_steps s) = 5 \<and>
          step (navigate_loop env max_steps s) \<le> max_steps \<and>
          (\<exists>pre. trace (navigate_loop env max_steps s) = pre @ [CallStop, Sleep 2] \<and>
                 CallStop \<notin> set pre))"
  using assms
proof (induction env max_steps s rule: navigate_loop.induct)
  case (1 env max_steps s)
  show ?case
  proof (cases "step s < max_steps")
    case False
    with "1.prems" show ?thesis by (simp add: navigate_loop_done)
  next
    case True
    obtain c s' where body: "loop_body env s = (c, s')"
      by (cases "loop_body env s")
    have st: "step s' = Suc (step s)"
      using loop_body_step [of env s] body by simp
    note inv = loop_body_invariant [OF "1.prems"(1) "1.prems"(2), of env]
    show ?thesis
    proof (cases c)
      case Continue
      with inv body have "consecutive_stops s' \<le> 4" "CallStop \<notin> set (trace s')"
        by simp_all
      moreover from st True have "step s' \<le> max_steps" by simp
      ultimately have "(step (navigate_loop env max_steps s') = max_steps \<and>
          CallStop \<notin> set (trace (navigate_loop env max_steps s'))) \<or>
         (consecutive_stops (navigate_loop env max_steps s') = 5 \<and>
          step (navigate_loop env max_steps s') \<le> max_steps \<and>
          (\<exists>pre. trace (navigate_loop env max_steps s') = pre @ [CallStop, Sleep 2] \<and>
                 CallStop \<notin> set pre))"
        using "1.IH" [OF True body [symmetric] Continue] by blast
      moreover have "navigate_loop env max_steps s = navigate_loop env max_steps s'"
        using navigate_loop_continue [OF True, of env] body Continue by simp
      ultimately show ?thesis by simp
    next
      case Break
      have run: "navigate_loop env max_steps s = s'"
        using navigate_loop_break [OF True, of env] body Break by simp
      from inv body Break have "consecutive_stops s' = 5"
        and tr: "trace s' = (trace s @ [CallGetCameraImage, CallGetState, CallQueryVisionModel])
           @ [CallStop, Sleep 2]"
        by simp_all
      moreover have "CallStop \<notin> set (trace s @ [CallGetCameraImage, CallGetState,
          CallQueryVisionModel])"
        using "1.prems"(2) by simp
      moreover from st True have "step s' \<le> max_steps" by simp
      ultimately show ?thesis
        unfolding run by blast
    qed
  qed
qed


text \<open>A run on a clear path: every iteration moves forward.\<close>

lemma forward_decision: "decide ''Forward: clear path'' n = (Move ''forward'' 1 2, 0)"
  by (simp add: decide_def forward_line)

lemma loop_body_forward:
  "fst (loop_body env_forward s) = Continue \<and>
   step (snd (loop_body env_forward s)) = Suc (step s) \<and>
   distance_moved (snd (loop_body env_forward s)) = distance_moved s + 2 \<and>
   trace (snd (loop_body env_forward s)) =
     trace s @ [CallGetCameraImage, CallGetState, CallQueryVisionModel,
                CallGiveMoveCommand ''forward'' 2 1 (4 / 5), Sleep 1]"
  by (simp add: loop_body_def env_forward_def forward_decision emit_def send_movement_def)

lemma forward_run:
  assumes "CallStop \<notin> set (trace s)"
  shows "CallStop \<notin> set (trace (navigate_loop env_forward max_steps s)) \<and>
         step (navigate_loop env_forward max_steps s) = max (step s) max_steps \<and>
         (step s < max_steps \<longrightarrow>
            last (commands (navigate_loop env_forward max_steps s)) =
              CallGiveMoveCommand ''forward'' 2 1 (4 / 5))"
  using assms
proof (induction env_forward max_steps s rule: navigate_loop.induct)
  case (1 max_steps s)
  show ?case
  proof (cases "step s < max_steps")
    case False
    with "1.prems" show ?thesis by (simp add: navigate_loop_done)
  next
    case True
    define s' where "s' = snd (loop_body env_forward s)"
    have body: "loop_body env_forward s = (Continue, s')"
      using loop_body_forward [of s] by (simp add: s'_def prod_eq_iff)
    have st: "step s' = Suc (step s)"
      and tr: "trace s' = trace s @ [CallGetCameraImage, CallGetState, CallQueryVisionModel,
                CallGiveMoveCommand ''forward'' 2 1 (4 / 5), Sleep 1]"
      using loop_body_forward [of s] by (simp_all add: s'_def)
    have nostop: "CallStop \<notin> set (trace s')"
      using "1.prems" tr by simp
    have lastcmd: "last (commands s') = CallGiveMoveCommand ''forward'' 2 1 (4 / 5)"
      by (simp add: commands_def tr)
    have run: "navigate_loop env_forward max_steps s = navigate_loop env_forward max_steps s'"
      using navigate_loop_continue [OF True, of env_forward] body by simp
    note ih = "1.hyps" [OF True body [symmetric] refl nostop]
    show ?thesis
    proof (cases "step s' < max_steps")
      case True
      with ih st run show ?thesis by simp
    next
      case False
      then have "navigate_loop env_forward max_steps s' = s'"
        by (simp add: navigate_loop_done)
      with ih st run lastcmd True show ?thesis by simp
    qed
  qed
qed

text \<open>On a clear path the run ends at step 100 having never called stop; its last command
  is a forward movement of two seconds.\<close>

theorem termination_without_stop_counterexample:
  "step (navigate_robot env_forward) = 100 \<and>
   CallStop \<notin> set (trace (navigate_robot env_forward)) \<and>
   last (commands (navigate_loop env_forward 100 initial_state)) =
     CallGiveMoveCommand ''forward'' 2 1 (4 / 5)"
proof -
  have "CallStop \<notin> set (trace initial_state)" and "step initial_state = 0"
    by (simp_all add: initial_state_def)
  with forward_run [of initial_state 100] show ?thesis
    by (simp add: navigate_robot_def emit_def Let_def)
qed

text \<open>
  Claim C5, amended. Every run of the loop ends, and in one of two ways: the step count
  has reached the maximum of 100 and no stop call was issued in the whole run, or the
  escalation gave up, \<open>consecutive_stops\<close> is 5 and the run's last actions are the stop call
  and a sleep of two seconds. In both cases the report follows: the step count and the
  total forward distance of the final state are printed. The stop tool leaves the bridge
  with a command that reads as \<open>(0, 0, 0)\<close> at any time.
\<close>

theorem navigation_termination:
  "trace (navigate_robot env) =
     trace (navigate_loop env 100 initial_state) @
     [PrintNavigationComplete,
      PrintTotalSteps (step (navigate_loop env 100 initial_state)),
      PrintTotalDistance (distance_moved (navigate_loop env 100 initial_state))] \<and>
   ((step (navigate_loop env 100 initial_state) = 100 \<and>
     CallStop \<notin> set (trace (navigate_loop env 100 initial_state))) \<or>
    (consecutive_stops (navigate_loop env 100 initial_state) = 5 \<and>
     step (navigate_loop env 100 initial_state) \<le> 100 \<and>
     (\<exists>pre. trace (navigate_loop env 100 initial_state) = pre @ [CallStop, Sleep 2] \<and>
            CallStop \<notin> set pre))) \<and>
   get_base_command later (stop now b) = (0, 0, 0)"
proof -
  have "consecutive_stops initial_state \<le> 4" "CallStop \<notin> set (trace initial_state)"
    "step initial_state \<le> 100"
    by (simp_all add: initial_state_def)
  from navigate_loop_invariant [OF this, of env]
  have ends: "(step (navigate_loop env 100 initial_state) = 100 \<and>
     CallStop \<notin> set (trace (navigate_loop env 100 initial_state))) \<or>
    (consecutive_stops (navigate_loop env 100 initial_state) = 5 \<and>
     step (navigate_loop env 100 initial_state) \<le> 100 \<and>
     (\<exists>pre. trace (navigate_loop env 100 initial_state) = pre @ [CallStop, Sleep 2] \<and>
            CallStop \<notin> set pre))" .
  have report: "trace (navigate_robot env) =
     trace (navigate_loop env 100 initial_state) @
     [PrintNavigationComplete,
      PrintTotalSteps (step (navigate_loop env 100 initial_state)),
      PrintTotalDistance (distance_moved (navigate_loop env 100 initial_state))]"
    by (simp add: navigate_robot_def emit_def Let_def)
  have stopped: "get_base_command later (stop now b) = (0, 0, 0)"
    by (simp add: get_base_command_def stop_def set_base_command_def)
  from report ends stopped show ?thesis by (intro conjI)
qed

section \<open>Reading the published state\<close>

text \<open>The example after the publisher's run: the bridge refers to the copy, and the copy
  refers to the publisher's pose.\<close>

lemma published_bridge: "last_state (fst published_example) = 3"
  by (simp add: published_example_def SimBridge_init_def empty_store_def alloc_def
      update_state_def py_dict_def Let_def)

lemma published_store:
  "next_addr (snd published_example) = 4"
  "objs (snd published_example) 3 = Some (PyDict [(''timestamp'', PyFloat 1), (''spot'', PyRef 1)])"
  "objs (snd published_example) 1 = Some (PyDict [(''orientation_yaw_rad'', PyFloat 0)])"
  by (simp_all add: published_example_def SimBridge_init_def empty_store_def alloc_def
      update_state_def py_dict_def Let_def)

text \<open>A reader takes a snapshot and assigns to \<open>snap["spot"]["orientation_yaw_rad"]\<close>. The
  yaw read through the bridge's own snapshot was 0 before and is 99 afterwards: the pose
  is one object, shared by the stored dict and the reader's copy.\<close>

theorem get_state_nested_shared_counterexample:
  "stored_lookup (fst published_example) [''spot'', ''orientation_yaw_rad'']
     (snd published_example) = Some (PyFloat 0) \<and>
   Option.bind
     (reader_sets_nested (fst published_example) ''spot'' ''orientation_yaw_rad''
        (PyFloat 99) (snd published_example))
     (stored_lookup (fst published_example) [''spot'', ''orientation_yaw_rad'']) =
   Some (PyFloat 99)"
  by (simp add: published_example_def SimBridge_init_def empty_store_def alloc_def
      update_state_def py_dict_def Let_def reader_sets_nested_def get_state_def
      dict_getitem_def dict_setitem_def store_write_def stored_lookup_def)

text \<open>
  Claim C6, amended. \<open>get_state\<close> returns a copy of the top level of the last published
  snapshot: a new dict object, different from the stored one, with the stored entries.
  Whatever the reader does to that object (assigning to a key in particular) leaves every
  object that existed before as it was, the stored snapshot among them. The entries are
  copied as they are, so a nested dict or list is the same object in the copy and in the
  bridge.
\<close>

theorem get_state_shallow_copy:
  assumes "objs h (last_state b) = Some (PyDict kvs)" and "last_state b < next_addr h"
  shows "\<exists>snap h1. get_state b h = Inr (snap, h1) \<and>
      snap = next_addr h \<and> snap \<noteq> last_state b \<and>
      objs h1 snap = Some (PyDict kvs) \<and>
      (\<forall>a. a \<noteq> snap \<longrightarrow> objs h1 a = objs h a) \<and>
      (\<forall>obj a. a \<noteq> snap \<longrightarrow> objs (store_write snap obj h1) a = objs h a) \<and>
      (\<forall>k v. \<exists>h2. dict_setitem snap k v h1 = Inr h2 \<and>
         objs h2 snap = Some (PyDict (AList.update k v kvs)) \<and>
         objs h2 (last_state b) = Some (PyDict kvs)) \<and>
      (\<forall>k v. \<exists>h2. reader_sets_top b k v h = Some h2 \<and>
         lookup_path h2 (PyRef (last_state b)) [k] = lookup_path h (PyRef (last_state b)) [k])"
proof -
  define snap where "snap = next_addr h"
  define h1 where "h1 = h\<lparr>objs := (objs h)(snap \<mapsto> PyDict kvs), next_addr := Suc snap\<rparr>"
  have gs: "get_state b h = Inr (snap, h1)"
    using assms(1) by (simp add: get_state_def py_dict_def alloc_def snap_def h1_def)
  have ne: "snap \<noteq> last_state b"
    using assms(2) by (simp add: snap_def)
  have copy: "objs h1 snap = Some (PyDict kvs)"
    by (simp add: h1_def)
  have frame: "\<forall>a. a \<noteq> snap \<longrightarrow> objs h1 a = objs h a"
    by (simp add: h1_def)
  have wr: "\<forall>obj a. a \<noteq> snap \<longrightarrow> objs (store_write snap obj h1) a = objs h a"
    by (simp add: h1_def store_write_def)
  have setitem: "dict_setitem snap k v h1 = Inr (store_write snap (PyDict (AList.update k v kvs)) h1)"
    for k v
    by (simp add: dict_setitem_def copy)
  have top: "\<forall>k v. \<exists>h2. dict_setitem snap k v h1 = Inr h2 \<and>
         objs h2 snap = Some (PyDict (AList.update k v kvs)) \<and>
         objs h2 (last_state b) = Some (PyDict kvs)"
    using ne assms(1) frame by (simp add: setitem store_write_def)
  have reader: "\<forall>k v. \<exists>h2. reader_sets_top b k v h = Some h2 \<and>
         lookup_path h2 (PyRef (last_state b)) [k] = lookup_path h (PyRef (last_state b)) [k]"
    using ne assms(1) frame
    by (simp add: reader_sets_top_def gs setitem store_write_def dict_getitem_def
        split: option.split)
  from gs snap_def ne copy frame wr top reader show ?thesis
    by blast
qed


text \<open>A reader of the example overwrites the timestamp of its snapshot.\<close>

theorem get_state_shallow_copy_witness:
  "objs (snd published_example) (last_state (fst published_example)) =
     Some (PyDict [(''timestamp'', PyFloat 1), (''spot'', PyRef 1)]) \<and>
   last_state (fst published_example) < next_addr (snd published_example) \<and>
   (\<exists>snap h1. get_state (fst published_example) (snd published_example) = Inr (snap, h1) \<and>
      snap = 4 \<and>
      objs h1 snap = Some (PyDict [(''timestamp'', PyFloat 1), (''spot'', PyRef 1)]) \<and>
      (\<exists>h2. dict_setitem snap ''timestamp'' (PyFloat 7) h1 = Inr h2 \<and>
         objs h2 snap = Some (PyDict [(''timestamp'', PyFloat 7), (''spot'', PyRef 1)]) \<and>
         objs h2 (last_state (fst published_example)) =
           Some (PyDict [(''timestamp'', PyFloat 1), (''spot'', PyRef 1)])))"
proof -
  have stored: "objs (snd published_example) (last_state (fst published_example)) =
     Some (PyDict [(''timestamp'', PyFloat 1), (''spot'', PyRef 1)])"
    by (simp add: published_bridge published_store)
  have allocated: "last_state (fst published_example) < next_addr (snd published_example)"
    by (simp add: published_bridge published_store)
  from get_state_shallow_copy [OF stored allocated]
  obtain snap h1 where
    gs: "get_state (fst published_example) (snd published_example) = Inr (snap, h1)"
    and snap: "snap = next_addr (snd published_example)"
    and copy: "objs h1 snap = Some (PyDict [(''timestamp'', PyFloat 1), (''spot'', PyRef 1)])"
    and top: "\<forall>k v. \<exists>h2. dict_setitem snap k v h1 = Inr h2 \<and>
         objs h2 snap =
           Some (PyDict (AList.update k v [(''timestamp'', PyFloat 1), (''spot'', PyRef 1)])) \<and>
         objs h2 (last_state (fst published_example)) =
           Some (PyDict [(''timestamp'', PyFloat 1), (''spot'', PyRef 1)])"
    by blast
  from top obtain h2 where
    "dict_setitem snap ''timestamp'' (PyFloat 7) h1 = Inr h2"
    "objs h2 snap = Some (PyDict (AList.update ''timestamp'' (PyFloat 7)
        [(''timestamp'', PyFloat 1), (''spot'', PyRef 1)]))"
    "objs h2 (last_state (fst published_example)) =
       Some (PyDict [(''timestamp'', PyFloat 1), (''spot'', PyRef 1)])"
    by blast
  then have "\<exists>h2. dict_setitem snap ''timestamp'' (PyFloat 7) h1 = Inr h2 \<and>
         objs h2 snap = Some (PyDict [(''timestamp'', PyFloat 7), (''spot'', PyRef 1)]) \<and>
         objs h2 (last_state (fst published_example)) =
           Some (PyDict [(''timestamp'', PyFloat 1), (''spot'', PyRef 1)])"
    by simp
  with stored allocated gs snap copy show ?thesis
    by (simp add: published_store)
qed

end
